theory Spec2Isabelle
  imports Main "HOL-Library.Sublist"
begin

section \<open>The Jira adapter (src/core/adapters/jira.ts)\<close>

text \<open>
  The adapter reads a page URL and its document, decides whether the page is a Jira page,
  extracts the key of the selected issue from the URL, asks the Jira REST API for the
  issue and maps the answer to a ticket. The model follows the source function by
  function. Strings are \<^typ>\<open>string\<close>; the pathname and the host of a URL are ASCII
  (the URL parser percent-encodes everything else), so a character of the model is a
  character of the source.
\<close>

subsection \<open>Data\<close>

text \<open>
  The browser's \<^verbatim>\<open>URL\<close> object, by the fields the adapter reads. \<open>protocol\<close> is the
  scheme with its colon (\<^verbatim>\<open>https:\<close>), \<open>host\<close> the host with its port if any.
  \<open>searchParams\<close> is the decoded list of name/value pairs of the query string, in
  order, as \<^verbatim>\<open>URLSearchParams\<close> holds it. The source reads the parameters from
  \<^verbatim>\<open>new URL(url.href)\<close>; serialising a URL and parsing it again gives a URL with the
  same components, so the model reads them from the URL itself.
\<close>

record URL =
  protocol :: string
  host :: string
  pathname :: string
  searchParams :: "(string \<times> string) list"

text \<open>
  The document, by the one thing the adapter reads: \<^verbatim>\<open>document.body.id\<close>
  (by its type the body is always there, and the id of an element without an id
  attribute is the empty string).
\<close>

record Document =
  body_id :: string

text \<open>
  The description of a ticket has type \<^verbatim>\<open>any\<close>: the API answers \<^verbatim>\<open>null\<close> or a
  document in the Atlassian Document Format, and the field may be missing. The
  document itself is opaque to the adapter, hence a type variable.
\<close>

datatype 'adf description = Null | Undefined | Doc 'adf

record JiraIssueType =
  name :: string

record 'adf JiraFields =
  issuetype :: JiraIssueType
  summary :: string
  description :: "'adf description"

record 'adf JiraTicketInfo =
  key :: string
  fields' :: "'adf JiraFields"

text \<open>
  \<^verbatim>\<open>TicketData\<close>, the result. Its \<^verbatim>\<open>description\<close> is a string or \<^verbatim>\<open>undefined\<close>
  (\<open>None\<close>).
\<close>

record TicketData =
  ticket_type :: string
  ticket_id :: string
  ticket_title :: string
  ticket_description :: "string option"
  ticket_url :: string

datatype scan_error = FetchFailure

subsection \<open>The collaborators\<close>

text \<open>
  \<^verbatim>\<open>match(pattern, path)\<close> of the library micro-match is a parameter of the model: a
  function from a route template and a path to the captured parameters, the empty map
  when the path does not match. \<^verbatim>\<open>toMarkdown(fromADF(d), ...)\<close> is a parameter as
  well, a function from documents to strings, and so are the built-in \<^verbatim>\<open>toLowerCase\<close>
  and the server: a function from the target of a GET request to its outcome.
\<close>

type_synonym matcher = "string \<Rightarrow> string \<Rightarrow> (string \<rightharpoonup> string)"

type_synonym 'adf server = "string \<Rightarrow> scan_error + 'adf JiraTicketInfo"

text \<open>
  Modelled from the spec: the HTTP client \<^verbatim>\<open>../client\<close> is not among the sources.
  \<^verbatim>\<open>client(base).get(path)\<close> issues one GET request to the base followed by a slash
  and the path (``Issue one GET to \<^verbatim>\<open>{scheme}://{host}{prefix}/rest/api/3/issue/{id}\<close>'').
\<close>

definition client_get :: "string \<Rightarrow> string \<Rightarrow> string" where
  "client_get base path = base @ ''/'' @ path"

subsection \<open>Regular expressions\<close>

text \<open>
  The regular expressions of the source, as far as it uses them: literals, the classes
  \<^verbatim>\<open>.\<close> and \<^verbatim>\<open>[^c]\<close>, \<^verbatim>\<open>+\<close> and \<^verbatim>\<open>*\<close> on a class, sequence, alternative,
  \<^verbatim>\<open>?\<close> and the anchor \<^verbatim>\<open>$\<close>.
\<close>

datatype cclass = AnyChar | NotChar char

datatype regex =
    Lit string
  | Cls cclass
  | Plus cclass
  | Star cclass
  | Seq regex regex
  | Alt regex regex
  | Opt regex
  | Eol

text \<open>\<^verbatim>\<open>.\<close> matches every character but a line terminator.\<close>

fun cmatch :: "cclass \<Rightarrow> char \<Rightarrow> bool" where
  "cmatch AnyChar c = (c \<noteq> CHR 0x0A \<and> c \<noteq> CHR 0x0D)"
| "cmatch (NotChar x) c = (c \<noteq> x)"

text \<open>
  \<open>many k s\<close>: what is left of \<open>s\<close> after zero or more characters of the class \<open>k\<close>,
  the longest run first (the quantifiers are greedy).
\<close>

fun many :: "cclass \<Rightarrow> string \<Rightarrow> string list" where
  "many k [] = [Nil]"
| "many k (c # cs) = (if cmatch k c then many k cs @ [c # cs] else [c # cs])"

text \<open>
  \<open>run r s\<close>: the backtracking matcher. It matches \<open>r\<close> at the start of \<open>s\<close> and
  returns what is left of \<open>s\<close> after each way of matching, in the order in which a
  backtracking engine tries them. The first element is the match the engine reports.
\<close>

fun run :: "regex \<Rightarrow> string \<Rightarrow> string list" where
  "run (Lit l) s = (if prefix l s then [drop (length l) s] else [])"
| "run (Cls k) s = (case s of [] \<Rightarrow> [] | c # cs \<Rightarrow> if cmatch k c then [cs] else [])"
| "run (Plus k) s = (case s of [] \<Rightarrow> [] | c # cs \<Rightarrow> if cmatch k c then many k cs else [])"
| "run (Star k) s = many k s"
| "run (Seq a b) s = concat (map (run b) (run a s))"
| "run (Alt a b) s = run a s @ run b s"
| "run (Opt a) s = run a s @ [s]"
| "run Eol s = (if s = [] then [Nil] else [])"

text \<open>
  \<^verbatim>\<open>replace\<close> with the empty string, for a regex \<open>r\<close> with the flag \<^verbatim>\<open>g\<close>:
  every match is removed, from left to right. At each position the engine tries \<open>r\<close>; after a match it goes on
  behind the match, and after an empty match or none it keeps the character and goes on
  with the next one. (\<open>r\<close> has no \<^verbatim>\<open>^\<close>, so a match does not depend on what is before
  the position.)
\<close>

function replace_g :: "regex \<Rightarrow> string \<Rightarrow> string" where
  "replace_g r [] = []"
| "replace_g r (c # cs) =
     (case run r (c # cs) of
        [] \<Rightarrow> c # replace_g r cs
      | rest # _ \<Rightarrow>
          if length rest < length (c # cs) then replace_g r rest else c # replace_g r cs)"
  by pat_completeness auto
termination
  by (relation "measure (\<lambda>(r, s). length s)") auto

text \<open>
  \<^verbatim>\<open>replace\<close> of \<^verbatim>\<open>/^lit/\<close> with the empty string, without the flag
  \<^verbatim>\<open>g\<close>: the literal is removed where \<open>s\<close> starts with it, and nothing else can
  match.
\<close>

definition replace_start :: "string \<Rightarrow> string \<Rightarrow> string" where
  "replace_start lit s = (if prefix lit s then drop (length lit) s else s)"

text \<open>
  \<^verbatim>\<open>String.prototype.toLowerCase\<close> maps a string by the case tables of Unicode. It
  is a parameter of the model, a function from strings to strings. \<open>ascii_toLowerCase\<close>
  is what it does on ASCII strings, where a capital letter becomes the small one; it
  stands for the built-in where the model is run on a concrete ticket.
\<close>

definition ascii_toLowerCase :: "string \<Rightarrow> string" where
  "ascii_toLowerCase =
     map (\<lambda>c. case map_of (zip ''ABCDEFGHIJKLMNOPQRSTUVWXYZ'' ''abcdefghijklmnopqrstuvwxyz'') c of
                None \<Rightarrow> c
              | Some l \<Rightarrow> l)"

subsection \<open>The adapter\<close>

definition isJiraPage :: "URL \<Rightarrow> Document \<Rightarrow> bool" where
  "isJiraPage u d =
     (if suffix ''.atlassian.net'' (host u) then True
      else if body_id d = ''jira'' then True
      else False)"

text \<open>
  \<^verbatim>\<open>/(jira/software/([^/]/)?)?(browse/[^/]+|projects/[^/]+/issues/[^/]+|projects/[^/]+/boards/.*|secure/RapidBoard.jspa)$\<close>
\<close>

definition pathSuffixes :: regex where
  "pathSuffixes =
     Seq (Lit ''/'')
    (Seq (Opt (Seq (Lit ''jira/software/'') (Opt (Seq (Cls (NotChar CHR ''/'')) (Lit ''/'')))))
    (Seq (Alt (Seq (Lit ''browse/'') (Plus (NotChar CHR ''/'')))
         (Alt (Seq (Lit ''projects/'') (Seq (Plus (NotChar CHR ''/''))
                (Seq (Lit ''/issues/'') (Plus (NotChar CHR ''/'')))))
         (Alt (Seq (Lit ''projects/'') (Seq (Plus (NotChar CHR ''/''))
                (Seq (Lit ''/boards/'') (Star AnyChar))))
              (Seq (Lit ''secure/RapidBoard'') (Seq (Cls AnyChar) (Lit ''jspa''))))))
     Eol))"

definition getPathPrefix :: "URL \<Rightarrow> string" where
  "getPathPrefix u = replace_g pathSuffixes (pathname u)"

text \<open>
  \<^verbatim>\<open>params.has(k)\<close> and \<^verbatim>\<open>params.get(k)\<close>: whether a pair with the name exists,
  and the value of the first one (\<^verbatim>\<open>null\<close>, here \<open>None\<close>, when there is none).
\<close>

definition has :: "(string \<times> string) list \<Rightarrow> string \<Rightarrow> bool" where
  "has ps k = (k \<in> set (map fst ps))"

definition get :: "(string \<times> string) list \<Rightarrow> string \<Rightarrow> string option" where
  "get ps k = map_of ps k"

text \<open>
  \<^verbatim>\<open>Boolean(v)\<close> for a value that is a string or \<^verbatim>\<open>undefined\<close>/\<^verbatim>\<open>null\<close>, and
  \<^verbatim>\<open>xs.find(Boolean)\<close>: the first truthy element, \<^verbatim>\<open>undefined\<close> when there is none.
\<close>

fun truthy :: "string option \<Rightarrow> bool" where
  "truthy None = False"
| "truthy (Some v) = (v \<noteq> [])"

fun find_truthy :: "string option list \<Rightarrow> string option" where
  "find_truthy [] = None"
| "find_truthy (v # vs) = (if truthy v then v else find_truthy vs)"

text \<open>
  The path the route templates see: the pathname without its first
  \<^verbatim>\<open>prefix.length\<close> characters and without a leading \<^verbatim>\<open>/jira/software\<close>.
\<close>

definition route_path :: "URL \<Rightarrow> string \<Rightarrow> string" where
  "route_path u pfx = replace_start ''/jira/software'' (drop (length pfx) (pathname u))"

text \<open>
  The identifier is a string, or \<^verbatim>\<open>undefined\<close> (\<open>None\<close>) when no template yields
  one.
\<close>

definition getSelectedIssueId :: "matcher \<Rightarrow> URL \<Rightarrow> string \<Rightarrow> string option" where
  "getSelectedIssueId m u pfx =
     (let params = searchParams u in
      if has params ''selectedIssue'' then get params ''selectedIssue''
      else
        let path = route_path u pfx in
        find_truthy
          (map (\<lambda>pattern. m pattern path ''id'')
             [''/projects/:project/issues/:id'', ''/browse/:id'']))"

definition extractTicketInfo ::
  "(string \<Rightarrow> string) \<Rightarrow> ('adf \<Rightarrow> string) \<Rightarrow> 'adf JiraTicketInfo \<Rightarrow> string
     \<Rightarrow> TicketData" where
  "extractTicketInfo toLowerCase toMarkdown info h =
     (let i = key info;
          fs = fields' info;
          t = toLowerCase (name (issuetype fs));
          l = ''https://'' @ h @ ''/browse/'' @ i;
          d = (case description fs of Doc a \<Rightarrow> Some (toMarkdown a) | _ \<Rightarrow> None)
      in \<lparr>ticket_type = t, ticket_id = i, ticket_title = summary fs,
          ticket_description = d, ticket_url = l\<rparr>)"

text \<open>
  \<open>scan\<close> returns its result, a list of tickets or the error of the rejected promise,
  together with the targets of the GET requests it has issued, in order.
\<close>

definition scan ::
  "matcher \<Rightarrow> (string \<Rightarrow> string) \<Rightarrow> ('adf \<Rightarrow> string) \<Rightarrow> 'adf server \<Rightarrow> URL \<Rightarrow> Document
     \<Rightarrow> (scan_error + TicketData list) \<times> string list" where
  "scan m toLowerCase toMarkdown srv u d =
     (if \<not> isJiraPage u d then (Inr [], [])
      else
        let pfx = getPathPrefix u;
            i = getSelectedIssueId m u pfx
        in case i of
             None \<Rightarrow> (Inr [], [])
           | Some v \<Rightarrow>
               if v = [] then (Inr [], [])
               else
                 let target =
                       client_get (''https://'' @ host u @ pfx @ ''/rest/api/3'')
                         (''issue/'' @ v)
                 in (case srv target of
                       Inl e \<Rightarrow> (Inl e, [target])
                     | Inr response \<Rightarrow>
                         (Inr [extractTicketInfo toLowerCase toMarkdown response (host u)],
                          [target])))"

subsection \<open>Path shapes\<close>

text \<open>A path segment: not empty, and without a slash.\<close>

definition seg :: "string \<Rightarrow> bool" where
  "seg k \<longleftrightarrow> k \<noteq> [] \<and> CHR ''/'' \<notin> set k"

text \<open>
  The four views that \<open>pathSuffixes\<close> lists after its slash and its optional product
  segment, as sets of strings.
\<close>

definition view_route :: "string \<Rightarrow> bool" where
  "view_route x \<longleftrightarrow>
     (\<exists>k. seg k \<and> x = ''browse/'' @ k)
   \<or> (\<exists>p k. seg p \<and> seg k \<and> x = ''projects/'' @ p @ ''/issues/'' @ k)
   \<or> (\<exists>p y. seg p \<and> (\<forall>c\<in>set y. cmatch AnyChar c) \<and> x = ''projects/'' @ p @ ''/boards/'' @ y)
   \<or> (\<exists>c. cmatch AnyChar c \<and> x = ''secure/RapidBoard'' @ c # ''jspa'')"

text \<open>
  A path that ends with the product segment, \<^verbatim>\<open>/jira/software\<close> or
  \<^verbatim>\<open>/jira/software/c\<close> for one character \<open>c\<close>; and a path that holds a boards
  view, \<^verbatim>\<open>/projects/x/boards/\<close>.
\<close>

definition ends_with_product :: "string \<Rightarrow> bool" where
  "ends_with_product P \<longleftrightarrow>
     suffix ''/jira/software'' P
   \<or> (\<exists>c. c \<noteq> CHR ''/'' \<and> suffix (''/jira/software/'' @ [c]) P)"

definition contains_boards_route :: "string \<Rightarrow> bool" where
  "contains_boards_route s \<longleftrightarrow>
     (\<exists>a x b. seg x \<and> s = a @ ''/projects/'' @ x @ ''/boards/'' @ b)"

subsection \<open>The route matcher\<close>

text \<open>
  What the adapter needs of \<^verbatim>\<open>match\<close>: on a path of the shape of a template it
  captures the segment at \<^verbatim>\<open>:id\<close>, and the projects template captures nothing from a
  browse path.
\<close>

definition route_matcher :: "matcher \<Rightarrow> bool" where
  "route_matcher m \<longleftrightarrow>
     (\<forall>p k. seg p \<and> seg k \<longrightarrow>
        m ''/projects/:project/issues/:id'' (''/projects/'' @ p @ ''/issues/'' @ k) ''id'' = Some k)
   \<and> (\<forall>k. seg k \<longrightarrow> m ''/browse/:id'' (''/browse/'' @ k) ''id'' = Some k)
   \<and> (\<forall>k. seg k \<longrightarrow> m ''/projects/:project/issues/:id'' (''/browse/'' @ k) ''id'' = None)"

text \<open>
  Modelled from the spec: the library micro-match is not among the sources; the spec
  has it as \<^verbatim>\<open>match(template, path) -> captured-params-or-empty\<close>. This matcher
  compares template and path segment by segment: a template segment \<^verbatim>\<open>:x\<close> captures
  a non-empty path segment under the name \<open>x\<close>, any other segment must be equal, and
  a path that does not match gives the empty map. It stands for the library wherever
  the model is run on a concrete URL.
\<close>

fun split_on :: "char \<Rightarrow> string \<Rightarrow> string list" where
  "split_on sep [] = [Nil]"
| "split_on sep (c # cs) =
     (if c = sep then [] # split_on sep cs
      else (case split_on sep cs of [] \<Rightarrow> [c # Nil] | x # xs \<Rightarrow> (c # x) # xs))"

fun match_segments :: "string list \<Rightarrow> string list \<Rightarrow> (string \<times> string) list option" where
  "match_segments [] [] = Some []"
| "match_segments (t # ts) (s # ss) =
     (case t of
        [] \<Rightarrow> (if s = [] then match_segments ts ss else None)
      | c # n \<Rightarrow>
          if c = CHR '':'' then
            (if s = [] then None else map_option ((#) (n, s)) (match_segments ts ss))
          else if t = s then match_segments ts ss else None)"
| "match_segments _ _ = None"

definition micro_match :: matcher where
  "micro_match pattern path =
     (case match_segments (split_on CHR ''/'' pattern) (split_on CHR ''/'' path) of
        None \<Rightarrow> Map.empty
      | Some captures \<Rightarrow> map_of captures)"

subsection \<open>Pages, servers and documents to run the model on\<close>

definition doc_plain :: Document where
  "doc_plain = \<lparr>body_id = []\<rparr>"

definition doc_jira :: Document where
  "doc_jira = \<lparr>body_id = ''jira''\<rparr>"

text \<open>\<^verbatim>\<open>https://acme.atlassian.net/browse/ACME-42\<close>\<close>

definition acme_browse :: URL where
  "acme_browse = \<lparr>protocol = ''https:'', host = ''acme.atlassian.net'',
     pathname = ''/browse/ACME-42'', searchParams = []\<rparr>"

text \<open>\<^verbatim>\<open>https://acme.atlassian.net/browse/ACME-42?selectedIssue=\<close>\<close>

definition acme_empty_selected :: URL where
  "acme_empty_selected = \<lparr>protocol = ''https:'', host = ''acme.atlassian.net'',
     pathname = ''/browse/ACME-42'', searchParams = [(''selectedIssue'', [])]\<rparr>"

text \<open>\<^verbatim>\<open>https://acme.atlassian.net/browse/ACME-42?filter=1&selectedIssue=\<close>\<close>

definition acme_filter_empty_selected :: URL where
  "acme_filter_empty_selected = \<lparr>protocol = ''https:'', host = ''acme.atlassian.net'',
     pathname = ''/browse/ACME-42'', searchParams = [(''filter'', ''1''), (''selectedIssue'', [])]\<rparr>"

text \<open>\<^verbatim>\<open>https://acme.atlassian.net/secure/RapidBoard.jspa?rapidView=1&selectedIssue=ACME-7\<close>\<close>

definition acme_board :: URL where
  "acme_board = \<lparr>protocol = ''https:'', host = ''acme.atlassian.net'',
     pathname = ''/secure/RapidBoard.jspa'',
     searchParams = [(''rapidView'', ''1''), (''selectedIssue'', ''ACME-7'')]\<rparr>"

text \<open>\<^verbatim>\<open>https://acme.atlassian.net/projects/ACME/issues/ACME-42\<close>\<close>

definition acme_issue :: URL where
  "acme_issue = \<lparr>protocol = ''https:'', host = ''acme.atlassian.net'',
     pathname = ''/projects/ACME/issues/ACME-42'', searchParams = []\<rparr>"

text \<open>\<^verbatim>\<open>https://acme.atlassian.net/secure/Dashboard.jspa\<close>\<close>

definition acme_dashboard :: URL where
  "acme_dashboard = \<lparr>protocol = ''https:'', host = ''acme.atlassian.net'',
     pathname = ''/secure/Dashboard.jspa'', searchParams = []\<rparr>"

text \<open>\<^verbatim>\<open>https://acme.atlassian.net/jira/software/browse/ACME-42\<close>\<close>

definition acme_product_browse :: URL where
  "acme_product_browse = \<lparr>protocol = ''https:'', host = ''acme.atlassian.net'',
     pathname = ''/jira/software/browse/ACME-42'', searchParams = []\<rparr>"

text \<open>\<^verbatim>\<open>https://acme.atlassian.net/jira/software/c/browse/ACME-42\<close>\<close>

definition acme_product_c_browse :: URL where
  "acme_product_c_browse = \<lparr>protocol = ''https:'', host = ''acme.atlassian.net'',
     pathname = ''/jira/software/c/browse/ACME-42'', searchParams = []\<rparr>"

text \<open>\<^verbatim>\<open>https://acme.atlassian.net/projects/ACME/boards/7/browse/ACME-42\<close>\<close>

definition acme_boards_browse :: URL where
  "acme_boards_browse = \<lparr>protocol = ''https:'', host = ''acme.atlassian.net'',
     pathname = ''/projects/ACME/boards/7/browse/ACME-42'', searchParams = []\<rparr>"

text \<open>\<^verbatim>\<open>https://tracker.internal.example/jira/browse/OPS-3\<close>\<close>

definition tracker_browse :: URL where
  "tracker_browse = \<lparr>protocol = ''https:'', host = ''tracker.internal.example'',
     pathname = ''/jira/browse/OPS-3'', searchParams = []\<rparr>"

text \<open>\<^verbatim>\<open>https://tracker.internal.example/it/browse/OPS-3\<close>\<close>

definition tracker_it_browse :: URL where
  "tracker_it_browse = \<lparr>protocol = ''https:'', host = ''tracker.internal.example'',
     pathname = ''/it/browse/OPS-3'', searchParams = []\<rparr>"

text \<open>\<^verbatim>\<open>http://jira.local/browse/OPS-3\<close>\<close>

definition local_browse :: URL where
  "local_browse = \<lparr>protocol = ''http:'', host = ''jira.local'',
     pathname = ''/browse/OPS-3'', searchParams = []\<rparr>"

text \<open>\<^verbatim>\<open>https://example.org/browse/X-1\<close>\<close>

definition example_browse :: URL where
  "example_browse = \<lparr>protocol = ''https:'', host = ''example.org'',
     pathname = ''/browse/X-1'', searchParams = []\<rparr>"

text \<open>A server that fails every request, and one that knows the ticket ACME-42.\<close>

definition offline :: "string server" where
  "offline target = Inl FetchFailure"

definition acme_ticket :: "string JiraTicketInfo" where
  "acme_ticket = \<lparr>key = ''ACME-42'',
     fields' = \<lparr>issuetype = \<lparr>name = ''Bug''\<rparr>, summary = ''Login fails'', description = Null\<rparr>\<rparr>"

definition acme_ticket_described :: "string JiraTicketInfo" where
  "acme_ticket_described = \<lparr>key = ''ACME-42'',
     fields' = \<lparr>issuetype = \<lparr>name = ''Bug''\<rparr>, summary = ''Login fails'',
                description = Doc ''Steps''\<rparr>\<rparr>"

definition acme_server :: "string server" where
  "acme_server target =
     (if target = ''https://acme.atlassian.net/rest/api/3/issue/ACME-42'' then Inr acme_ticket
      else Inl FetchFailure)"

text \<open>A conversion for documents that are plain strings already.\<close>

definition as_text :: "string \<Rightarrow> string" where
  "as_text a = a"

section \<open>Properties of the model\<close>

subsection \<open>What the matcher returns\<close>

lemma in_many: "t \<in> set (many k s) \<longleftrightarrow> (\<exists>w. (\<forall>c\<in>set w. cmatch k c) \<and> s = w @ t)"
proof (induction s)
  case Nil
  then show ?case by auto
next
  case (Cons a s)
  show ?case
  proof (cases "cmatch k a")
    case True
    have "(\<exists>w. (\<forall>c\<in>set w. cmatch k c) \<and> a # s = w @ t) \<longleftrightarrow>
          (t = a # s \<or> (\<exists>w. (\<forall>c\<in>set w. cmatch k c) \<and> s = w @ t))"
      using True by (auto simp: Cons_eq_append_conv)
    then show ?thesis using True Cons.IH by auto
  next
    case False
    then show ?thesis by (auto simp: Cons_eq_append_conv)
  qed
qed

lemma in_run_Lit: "t \<in> set (run (Lit l) s) \<longleftrightarrow> s = l @ t"
  by (auto simp: prefix_def)

lemma in_run_Cls: "t \<in> set (run (Cls k) s) \<longleftrightarrow> (\<exists>c. cmatch k c \<and> s = c # t)"
  by (auto split: list.splits)

lemma in_run_Plus:
  "t \<in> set (run (Plus k) s) \<longleftrightarrow> (\<exists>w. w \<noteq> [] \<and> (\<forall>c\<in>set w. cmatch k c) \<and> s = w @ t)"
proof (cases s)
  case Nil
  then show ?thesis by auto
next
  case (Cons a cs)
  show ?thesis
  proof (cases "cmatch k a")
    case True
    have "(\<exists>w. w \<noteq> [] \<and> (\<forall>c\<in>set w. cmatch k c) \<and> a # cs = w @ t) \<longleftrightarrow>
          (\<exists>w. (\<forall>c\<in>set w. cmatch k c) \<and> cs = w @ t)"
      using True by (auto simp: Cons_eq_append_conv)
    then show ?thesis using True Cons by (simp add: in_many)
  next
    case False
    then show ?thesis using Cons by (auto simp: Cons_eq_append_conv)
  qed
qed

lemma in_run_Star: "t \<in> set (run (Star k) s) \<longleftrightarrow> (\<exists>w. (\<forall>c\<in>set w. cmatch k c) \<and> s = w @ t)"
  by (simp add: in_many)

lemma in_run_Seq: "t \<in> set (run (Seq a b) s) \<longleftrightarrow> (\<exists>x\<in>set (run a s). t \<in> set (run b x))"
  by auto

lemma in_run_Alt: "t \<in> set (run (Alt a b) s) \<longleftrightarrow> t \<in> set (run a s) \<or> t \<in> set (run b s)"
  by auto

lemma in_run_Opt: "t \<in> set (run (Opt a) s) \<longleftrightarrow> t \<in> set (run a s) \<or> t = s"
  by auto

lemma in_run_Eol: "t \<in> set (run Eol s) \<longleftrightarrow> t = [] \<and> s = []"
  by auto

lemmas in_run = in_run_Lit in_run_Cls in_run_Plus in_run_Star in_run_Seq in_run_Alt in_run_Opt in_run_Eol

subsection \<open>Strings that end with a browse view\<close>

lemma split_last:
  assumes "CHR ''/'' \<notin> set k" "CHR ''/'' \<notin> set K" "a @ CHR ''/'' # k = b @ CHR ''/'' # K"
  shows "a = b \<and> k = K"
  using assms
  by (auto simp: append_eq_append_conv2 Cons_eq_append_conv append_eq_Cons_conv)

lemma routes_part:
  "t \<in> set (run (Alt (Seq (Lit ''browse/'') (Plus (NotChar CHR ''/'')))
         (Alt (Seq (Lit ''projects/'') (Seq (Plus (NotChar CHR ''/''))
                (Seq (Lit ''/issues/'') (Plus (NotChar CHR ''/'')))))
         (Alt (Seq (Lit ''projects/'') (Seq (Plus (NotChar CHR ''/''))
                (Seq (Lit ''/boards/'') (Star AnyChar))))
              (Seq (Lit ''secure/RapidBoard'') (Seq (Cls AnyChar) (Lit ''jspa'')))))) x)
   \<longleftrightarrow> (\<exists>k. seg k \<and> x = ''browse/'' @ k @ t)
     \<or> (\<exists>p k. seg p \<and> seg k \<and> x = ''projects/'' @ p @ ''/issues/'' @ k @ t)
     \<or> (\<exists>p y. seg p \<and> (\<forall>c\<in>set y. cmatch AnyChar c) \<and> x = ''projects/'' @ p @ ''/boards/'' @ y @ t)
     \<or> (\<exists>c. cmatch AnyChar c \<and> x = ''secure/RapidBoard'' @ c # ''jspa'' @ t)"
  apply (simp only: in_run Bex_def seg_def)
  apply (rule arg_cong2[where f="(\<or>)"])
  subgoal by (auto simp del: cmatch.simps(1))
  apply (rule arg_cong2[where f="(\<or>)"])
  subgoal by (auto simp del: cmatch.simps(1))
  apply (rule arg_cong2[where f="(\<or>)"])
  subgoal by (auto simp del: cmatch.simps(1))
  subgoal by (auto simp del: cmatch.simps(1))
  done

lemma slash_count:
  "CHR ''/'' \<notin> set K \<Longrightarrow> length (filter ((=) CHR ''/'') K) = 0"
  by (induction K) auto

lemma boards_in_tail:
  assumes "CHR ''/'' \<notin> set K" "''/browse/'' @ K = w @ ''/boards/'' @ y"
  shows False
proof (cases w)
  case Nil
  then show False using assms(2) by simp
next
  case (Cons c w')
  then have eq: "''browse/'' @ K = w' @ ''/boards/'' @ y"
    using assms(2) by auto
  have "length (filter ((=) CHR ''/'') (''browse/'' @ K)) = 1"
    using assms(1) by (simp add: slash_count)
  moreover have "length (filter ((=) CHR ''/'') (w' @ ''/boards/'' @ y)) \<ge> 2"
    by simp
  ultimately show False
    unfolding eq by linarith
qed

lemma boards_at_front:
  assumes "w @ ''/browse/'' @ K = ''/boards/'' @ y"
  shows "\<exists>b. w @ ''/'' = ''/boards/'' @ b"
  using assms by (auto simp: append_eq_Cons_conv)

lemma boards_split:
  assumes "CHR ''/'' \<notin> set K" "s @ ''/browse/'' @ K = A @ ''/boards/'' @ y"
  shows "\<exists>b. s @ ''/'' = A @ ''/boards/'' @ b"
proof -
  from assms(2) consider w where "s = A @ w" "w @ ''/browse/'' @ K = ''/boards/'' @ y"
    | w where "A = s @ w" "''/browse/'' @ K = w @ ''/boards/'' @ y"
    by (auto simp: append_eq_append_conv2)
  then show ?thesis
  proof cases
    case 1
    from boards_at_front[OF 1(2)] obtain b where "w @ ''/'' = ''/boards/'' @ b" ..
    then show ?thesis using 1(1) by simp
  next
    case 2
    then show ?thesis using boards_in_tail[OF assms(1) 2(2)] by simp
  qed
qed

subsection \<open>The paths that pathSuffixes matches\<close>

lemma product_part:
  "x \<in> set (run (Opt (Seq (Lit ''jira/software/'') (Opt (Seq (Cls (NotChar CHR ''/'')) (Lit ''/''))))) s)
   \<longleftrightarrow> s = x \<or> s = ''jira/software/'' @ x \<or> (\<exists>c. c \<noteq> CHR ''/'' \<and> s = ''jira/software/'' @ c # ''/'' @ x)"
  apply (simp only: in_run Bex_def cmatch.simps)
  apply auto
  done

lemma routes_end:
  "t \<in> set (run (Seq (Alt (Seq (Lit ''browse/'') (Plus (NotChar CHR ''/'')))
         (Alt (Seq (Lit ''projects/'') (Seq (Plus (NotChar CHR ''/''))
                (Seq (Lit ''/issues/'') (Plus (NotChar CHR ''/'')))))
         (Alt (Seq (Lit ''projects/'') (Seq (Plus (NotChar CHR ''/''))
                (Seq (Lit ''/boards/'') (Star AnyChar))))
              (Seq (Lit ''secure/RapidBoard'') (Seq (Cls AnyChar) (Lit ''jspa'')))))) Eol) x)
   \<longleftrightarrow> t = [] \<and> view_route x"
proof -
  have "t \<in> set (run (Seq r Eol) x) \<longleftrightarrow> t = [] \<and> [] \<in> set (run r x)" for r
    by (simp only: in_run_Seq in_run_Eol Bex_def) blast
  then show ?thesis
    by (simp only: routes_part view_route_def append_Nil2)
qed

lemma pathSuffixes_match:
  "t \<in> set (run pathSuffixes s) \<longleftrightarrow>
     t = [] \<and> (\<exists>y x. s = ''/'' @ y \<and> view_route x \<and>
        (y = x \<or> y = ''jira/software/'' @ x
         \<or> (\<exists>c. c \<noteq> CHR ''/'' \<and> y = ''jira/software/'' @ c # ''/'' @ x)))"
  unfolding pathSuffixes_def
  apply (subst in_run_Seq)
  apply (subst Bex_def)
  apply (subst in_run_Lit)
  apply (subst in_run_Seq)
  apply (subst Bex_def)
  apply (subst product_part)
  apply (subst routes_end)
  apply blast
  done

subsection \<open>Removing the match\<close>

lemma replace_g_cut:
  assumes "\<forall>i<length p. run r (drop i (p @ s)) = []"
    and "s \<noteq> []" and "run r s \<noteq> []" and "\<forall>t\<in>set (run r s). t = []"
  shows "replace_g r (p @ s) = p"
  using assms(1)
proof (induction p)
  case Nil
  obtain c cs where s: "s = c # cs" using assms(2) by (cases s) auto
  obtain t ts where ts: "run r (c # cs) = t # ts" using assms(3) s by (cases "run r s") auto
  then have "t = []" using assms(4) s by auto
  then show ?case using s ts by simp
next
  case (Cons a p)
  have "run r (a # p @ s) = []" using Cons.prems by force
  moreover have "\<forall>i<length p. run r (drop i (p @ s)) = []"
  proof (intro allI impI)
    fix i assume "i < length p"
    then have "run r (drop (Suc i) ((a # p) @ s)) = []" using Cons.prems by (metis Suc_less_eq length_Cons)
    then show "run r (drop i (p @ s)) = []" by simp
  qed
  ultimately show ?case using Cons.IH by simp
qed

lemma tail7: "a @ x = b @ y \<Longrightarrow> length x = 7 \<Longrightarrow> length y = 7 \<Longrightarrow> x = y \<and> a = b"
  by simp

lemma no_early:
  assumes K: "CHR ''/'' \<notin> set K"
    and match: "run pathSuffixes (s0 @ ''/browse/'' @ K) \<noteq> []"
  shows "s0 = [] \<or> s0 = ''/jira/software'' \<or> (\<exists>c. c \<noteq> CHR ''/'' \<and> s0 = ''/jira/software/'' @ [c])
       \<or> (\<exists>a x b. seg x \<and> s0 @ ''/'' = a @ ''/projects/'' @ x @ ''/boards/'' @ b)"
proof -
  from match obtain t where "t \<in> set (run pathSuffixes (s0 @ ''/browse/'' @ K))"
    by (cases "run pathSuffixes (s0 @ ''/browse/'' @ K)") auto
  then obtain y x where y: "s0 @ ''/browse/'' @ K = ''/'' @ y" and x: "view_route x"
    and yx: "y = x \<or> y = ''jira/software/'' @ x \<or> (\<exists>c. c \<noteq> CHR ''/'' \<and> y = ''jira/software/'' @ c # ''/'' @ x)"
    unfolding pathSuffixes_match by blast
  from y yx obtain pre where pre: "s0 @ ''/browse/'' @ K = pre @ ''/'' @ x"
    and pre_cases: "pre = [] \<or> pre = ''/jira/software'' \<or> (\<exists>c. c \<noteq> CHR ''/'' \<and> pre = ''/jira/software/'' @ [c])"
  proof -
    have "\<exists>pre. s0 @ ''/browse/'' @ K = pre @ ''/'' @ x \<and> (pre = [] \<or> pre = ''/jira/software'' \<or> (\<exists>c. c \<noteq> CHR ''/'' \<and> pre = ''/jira/software/'' @ [c]))"
      using y yx by auto
    then show ?thesis using that by blast
  qed
  from x consider
      (browse) k where "seg k" "x = ''browse/'' @ k"
    | (issues) p k where "seg p" "seg k" "x = ''projects/'' @ p @ ''/issues/'' @ k"
    | (boards) p z where "seg p" "x = ''projects/'' @ p @ ''/boards/'' @ z"
    | (rapid) c where "x = ''secure/RapidBoard'' @ c # ''jspa''"
    unfolding view_route_def by blast
  then show ?thesis
  proof cases
    case browse
    have "(s0 @ ''/browse'') @ CHR ''/'' # K = (pre @ ''/browse'') @ CHR ''/'' # k"
      using pre browse(2) by simp
    moreover have "CHR ''/'' \<notin> set k" using browse(1) by (simp add: seg_def)
    ultimately have "s0 @ ''/browse'' = pre @ ''/browse''"
      using split_last[OF K] by blast
    then have "s0 = pre" by simp
    then show ?thesis using pre_cases by blast
  next
    case issues
    have "(s0 @ ''/browse'') @ CHR ''/'' # K = (pre @ ''/projects/'' @ p @ ''/issues'') @ CHR ''/'' # k"
      using pre issues(3) by simp
    moreover have "CHR ''/'' \<notin> set k" using issues(2) by (simp add: seg_def)
    ultimately have "s0 @ ''/browse'' = pre @ ''/projects/'' @ p @ ''/issues''"
      using split_last[OF K] by blast
    then have "s0 @ ''/browse'' = (pre @ ''/projects/'' @ p) @ ''/issues''"
      by (simp only: append_assoc)
    from tail7[OF this] show ?thesis by simp
  next
    case boards
    have "s0 @ ''/browse/'' @ K = (pre @ ''/projects/'' @ p) @ ''/boards/'' @ z"
      using pre boards(2) by simp
    from boards_split[OF K this] obtain b where "s0 @ ''/'' = (pre @ ''/projects/'' @ p) @ ''/boards/'' @ b" ..
    then have "s0 @ ''/'' = pre @ ''/projects/'' @ p @ ''/boards/'' @ b"
      by (simp only: append_assoc)
    with boards(1) have "\<exists>a x b. seg x \<and> s0 @ ''/'' = a @ ''/projects/'' @ x @ ''/boards/'' @ b"
      by (intro exI conjI)
    then show ?thesis by (intro disjI2)
  next
    case rapid
    show ?thesis
    proof (cases "c = CHR ''/''")
      case True
      have "(s0 @ ''/browse'') @ CHR ''/'' # K = (pre @ ''/secure/RapidBoard'') @ CHR ''/'' # ''jspa''"
        using pre rapid True by simp
      from split_last[OF K _ this]
      have "s0 @ ''/browse'' = (pre @ ''/secure/Rap'') @ ''idBoard''" by simp
      from tail7[OF this] show ?thesis by simp
    next
      case False
      have "(s0 @ ''/browse'') @ CHR ''/'' # K = (pre @ ''/secure'') @ CHR ''/'' # (''RapidBoard'' @ c # ''jspa'')"
        using pre rapid by simp
      from split_last[OF K _ this] False
      have "s0 @ ''/browse'' = pre @ ''/secure''" by simp
      from tail7[OF this] show ?thesis by simp
    qed
  qed
qed

subsection \<open>The segment matcher is a route matcher\<close>

lemma split_on_seg: "CHR ''/'' \<notin> set k \<Longrightarrow> split_on CHR ''/'' k = [k]"
  by (induction k) auto

lemma split_on_app: "CHR ''/'' \<notin> set p \<Longrightarrow> split_on CHR ''/'' (p @ CHR ''/'' # r) = p # split_on CHR ''/'' r"
  by (induction p) auto

lemma split_on_pattern1:
  "split_on CHR ''/'' ''/projects/:project/issues/:id'' =
     [Nil, ''projects'', '':project'', ''issues'', '':id'']"
  by simp

lemma split_on_pattern2: "split_on CHR ''/'' ''/browse/:id'' = [Nil, ''browse'', '':id'']"
  by simp

lemma split_on_browse: "CHR ''/'' \<notin> set k \<Longrightarrow> split_on CHR ''/'' (''/browse/'' @ k) = [Nil, ''browse'', k]"
  by (simp add: split_on_seg)

lemma split_on_projects:
  assumes "CHR ''/'' \<notin> set p" "CHR ''/'' \<notin> set k"
  shows "split_on CHR ''/'' (''/projects/'' @ p @ ''/issues/'' @ k) = [Nil, ''projects'', p, ''issues'', k]"
proof -
  have "split_on CHR ''/'' (p @ CHR ''/'' # ''issues/'' @ k) = p # split_on CHR ''/'' (''issues/'' @ k)"
    using assms(1) by (rule split_on_app)
  moreover have "split_on CHR ''/'' (''issues/'' @ k) = [''issues'', k]"
    using assms(2) by (simp add: split_on_seg)
  ultimately show ?thesis by simp
qed

lemma micro_match_ok: "route_matcher micro_match"
  unfolding route_matcher_def
proof (intro conjI allI impI)
  fix p k assume "seg p \<and> seg k"
  then have *: "CHR ''/'' \<notin> set p" "CHR ''/'' \<notin> set k" "p \<noteq> []" "k \<noteq> []" by (auto simp: seg_def)
  show "micro_match ''/projects/:project/issues/:id'' (''/projects/'' @ p @ ''/issues/'' @ k) ''id'' = Some k"
    unfolding micro_match_def split_on_pattern1 split_on_projects[OF *(1,2)]
    using *(3,4) by simp
next
  fix k assume "seg k"
  then have *: "CHR ''/'' \<notin> set k" "k \<noteq> []" by (auto simp: seg_def)
  show "micro_match ''/browse/:id'' (''/browse/'' @ k) ''id'' = Some k"
    unfolding micro_match_def split_on_pattern2 split_on_browse[OF *(1)]
    using *(2) by simp
next
  fix k assume "seg k"
  then have *: "CHR ''/'' \<notin> set k" "k \<noteq> []" by (auto simp: seg_def)
  show "micro_match ''/projects/:project/issues/:id'' (''/browse/'' @ k) ''id'' = None"
    unfolding micro_match_def split_on_pattern1 split_on_browse[OF *(1)]
    by simp
qed

subsection \<open>The prefix of a browse path and of an issues path\<close>

lemma run_pathSuffixes_Nil: "\<forall>t\<in>set (run pathSuffixes s). t = []"
  using pathSuffixes_match by blast

lemma pathSuffixes_plain:
  assumes "view_route x"
  shows "run pathSuffixes (''/'' @ x) \<noteq> []"
proof -
  have "\<exists>y x'. ''/'' @ x = ''/'' @ y \<and> view_route x' \<and>
        (y = x' \<or> y = ''jira/software/'' @ x'
         \<or> (\<exists>c. c \<noteq> CHR ''/'' \<and> y = ''jira/software/'' @ c # ''/'' @ x'))"
    using assms by (intro exI[of _ x] conjI disjI1 refl)
  then have "[] \<in> set (run pathSuffixes (''/'' @ x))"
    by (simp only: pathSuffixes_match simp_thms)
  then show ?thesis by auto
qed

lemma browse_matches:
  assumes "seg K"
  shows "run pathSuffixes (''/browse/'' @ K) \<noteq> []"
proof -
  have "view_route (''browse/'' @ K)"
    unfolding view_route_def using assms by (intro disjI1 exI[of _ K] conjI refl)
  then have "run pathSuffixes (''/'' @ ''browse/'' @ K) \<noteq> []"
    by (rule pathSuffixes_plain)
  then show ?thesis by simp
qed

lemma issues_matches:
  assumes "seg p" "seg k"
  shows "run pathSuffixes (''/projects/'' @ p @ ''/issues/'' @ k) \<noteq> []"
proof -
  have "view_route (''projects/'' @ p @ ''/issues/'' @ k)"
    unfolding view_route_def using assms
    by (intro disjI2 disjI1 exI[of _ p] exI[of _ k] conjI refl)
  then have "run pathSuffixes (''/'' @ ''projects/'' @ p @ ''/issues/'' @ k) \<noteq> []"
    by (rule pathSuffixes_plain)
  then show ?thesis by simp
qed

lemma prefix_before_browse:
  assumes K: "seg K"
    and P1: "\<not> ends_with_product P"
    and P2: "\<not> contains_boards_route (P @ ''/'')"
  shows "replace_g pathSuffixes (P @ ''/browse/'' @ K) = P"
proof (rule replace_g_cut)
  show "''/browse/'' @ K \<noteq> []" by simp
  show "run pathSuffixes (''/browse/'' @ K) \<noteq> []" using K by (rule browse_matches)
  show "\<forall>t\<in>set (run pathSuffixes (''/browse/'' @ K)). t = []" by (rule run_pathSuffixes_Nil)
  show "\<forall>i<length P. run pathSuffixes (drop i (P @ ''/browse/'' @ K)) = []"
  proof (intro allI impI, rule ccontr)
    fix i assume i: "i < length P"
    assume "run pathSuffixes (drop i (P @ ''/browse/'' @ K)) \<noteq> []"
    then have m: "run pathSuffixes (drop i P @ ''/browse/'' @ K) \<noteq> []" using i by simp
    have K': "CHR ''/'' \<notin> set K" using K by (simp add: seg_def)
    have ne: "drop i P \<noteq> []" using i by simp
    have suf: "suffix (drop i P) P" by (rule suffix_drop)
    from no_early[OF K' m] show False
    proof (elim disjE exE conjE)
      assume "drop i P = []"
      then show False using ne by contradiction
    next
      assume 1: "drop i P = ''/jira/software''"
      have "suffix ''/jira/software'' P" using suf unfolding 1 .
      then have "ends_with_product P" unfolding ends_with_product_def by (rule disjI1)
      then show False using P1 by contradiction
    next
      fix c assume 2: "c \<noteq> CHR ''/''" "drop i P = ''/jira/software/'' @ [c]"
      have "suffix (''/jira/software/'' @ [c]) P" using suf unfolding 2(2) .
      with 2(1) have "ends_with_product P"
        unfolding ends_with_product_def by (intro disjI2 exI[of _ c] conjI)
      then show False using P1 by contradiction
    next
      fix a x b assume 3: "seg x" "drop i P @ ''/'' = a @ ''/projects/'' @ x @ ''/boards/'' @ b"
      have "P @ ''/'' = take i P @ drop i P @ ''/''" by simp
      also have "\<dots> = (take i P @ a) @ ''/projects/'' @ x @ ''/boards/'' @ b"
        unfolding 3(2) by simp
      finally have "P @ ''/'' = (take i P @ a) @ ''/projects/'' @ x @ ''/boards/'' @ b" .
      with 3(1) have "contains_boards_route (P @ ''/'')"
        unfolding contains_boards_route_def by (intro exI conjI)
      then show False using P2 by contradiction
    qed
  qed
qed

lemma product_overlap:
  assumes "d @ ''/jira/software'' = ''/jira/software/'' @ [c]"
  shows False
proof -
  have "length (d @ ''/jira/software'') = length (''/jira/software/'' @ [c])"
    using assms by (rule arg_cong)
  then have "length d = 2" by simp
  then obtain a b where "d = [a, b]"
    by (cases d; cases "tl d") auto
  then show False using assms by simp
qed

lemma pathSuffixes_product:
  assumes "view_route x"
    and "pre = ''/jira/software'' \<or> (\<exists>c. c \<noteq> CHR ''/'' \<and> pre = ''/jira/software/'' @ [c])"
  shows "run pathSuffixes (pre @ ''/'' @ x) \<noteq> []"
proof -
  from assms(2) have "\<exists>y. pre @ ''/'' @ x = ''/'' @ y \<and>
        (y = x \<or> y = ''jira/software/'' @ x
         \<or> (\<exists>c. c \<noteq> CHR ''/'' \<and> y = ''jira/software/'' @ c # ''/'' @ x))"
  proof (elim disjE exE conjE)
    assume "pre = ''/jira/software''"
    then have "pre @ ''/'' @ x = ''/'' @ (''jira/software/'' @ x)" by simp
    then show ?thesis by (intro exI[of _ "''jira/software/'' @ x"] conjI disjI2 disjI1 refl)
  next
    fix c assume c: "c \<noteq> CHR ''/''" "pre = ''/jira/software/'' @ [c]"
    then have "pre @ ''/'' @ x = ''/'' @ (''jira/software/'' @ c # ''/'' @ x)" by simp
    with c(1) show ?thesis
      by (intro exI[of _ "''jira/software/'' @ c # ''/'' @ x"] conjI disjI2 exI[of _ c] refl)
  qed
  then obtain y where "pre @ ''/'' @ x = ''/'' @ y"
    and "y = x \<or> y = ''jira/software/'' @ x
         \<or> (\<exists>c. c \<noteq> CHR ''/'' \<and> y = ''jira/software/'' @ c # ''/'' @ x)"
    by (elim exE conjE)
  with assms(1) have "\<exists>y x'. pre @ ''/'' @ x = ''/'' @ y \<and> view_route x' \<and>
        (y = x' \<or> y = ''jira/software/'' @ x'
         \<or> (\<exists>c. c \<noteq> CHR ''/'' \<and> y = ''jira/software/'' @ c # ''/'' @ x'))"
    by (intro exI[of _ y] exI[of _ x] conjI)
  then have "[] \<in> set (run pathSuffixes (pre @ ''/'' @ x))"
    by (simp only: pathSuffixes_match simp_thms)
  then show ?thesis by auto
qed

lemma prefix_before_product:
  assumes K: "seg K"
    and pre: "pre = ''/jira/software'' \<or> (\<exists>c. c \<noteq> CHR ''/'' \<and> pre = ''/jira/software/'' @ [c])"
    and nb: "\<not> contains_boards_route ((Q @ pre) @ ''/'')"
  shows "replace_g pathSuffixes ((Q @ pre) @ ''/browse/'' @ K) = Q"
proof -
  have "replace_g pathSuffixes (Q @ (pre @ ''/'' @ ''browse/'' @ K)) = Q"
  proof (rule replace_g_cut)
    show "pre @ ''/'' @ ''browse/'' @ K \<noteq> []" by simp
    have "view_route (''browse/'' @ K)"
      unfolding view_route_def using K by (intro disjI1 exI[of _ K] conjI refl)
    then show "run pathSuffixes (pre @ ''/'' @ ''browse/'' @ K) \<noteq> []"
      using pre by (rule pathSuffixes_product)
    show "\<forall>t\<in>set (run pathSuffixes (pre @ ''/'' @ ''browse/'' @ K)). t = []"
      by (rule run_pathSuffixes_Nil)
    show "\<forall>i<length Q. run pathSuffixes (drop i (Q @ pre @ ''/'' @ ''browse/'' @ K)) = []"
    proof (intro allI impI, rule ccontr)
      fix i assume i: "i < length Q"
      assume "run pathSuffixes (drop i (Q @ pre @ ''/'' @ ''browse/'' @ K)) \<noteq> []"
      then have m: "run pathSuffixes ((drop i Q @ pre) @ ''/browse/'' @ K) \<noteq> []" using i by simp
      have K': "CHR ''/'' \<notin> set K" using K by (simp add: seg_def)
      have ne: "drop i Q \<noteq> []" using i by simp
      have len: "length pre = 14 \<or> length pre = 16" using pre by auto
      from no_early[OF K' m] show False
      proof (elim disjE exE conjE)
        assume "drop i Q @ pre = []"
        then show False using ne by simp
      next
        assume "drop i Q @ pre = ''/jira/software''"
        then have "length (drop i Q @ pre) = 14" by simp
        then show False using len ne by auto
      next
        fix c assume 2: "drop i Q @ pre = ''/jira/software/'' @ [c]"
        then have l: "length (drop i Q @ pre) = 16" by simp
        from pre show False
        proof (elim disjE exE conjE)
          assume "pre = ''/jira/software''"
          then show False using 2 product_overlap by blast
        next
          fix c' assume "pre = ''/jira/software/'' @ [c']"
          then have "length pre = 16" by simp
          then show False using l ne by auto
        qed
      next
        fix a x b assume 3: "seg x" "(drop i Q @ pre) @ ''/'' = a @ ''/projects/'' @ x @ ''/boards/'' @ b"
        have "(Q @ pre) @ ''/'' = take i Q @ (drop i Q @ pre) @ ''/''" by simp
        also have "\<dots> = (take i Q @ a) @ ''/projects/'' @ x @ ''/boards/'' @ b"
          unfolding 3(2) by simp
        finally have "(Q @ pre) @ ''/'' = (take i Q @ a) @ ''/projects/'' @ x @ ''/boards/'' @ b" .
        with 3(1) have "contains_boards_route ((Q @ pre) @ ''/'')"
          unfolding contains_boards_route_def by (intro exI conjI)
        then show False using nb by contradiction
      qed
    qed
  qed
  then show ?thesis by simp
qed

lemma prefix_at_issues:
  assumes "seg p" "seg k"
  shows "replace_g pathSuffixes (''/projects/'' @ p @ ''/issues/'' @ k) = []"
proof -
  have "replace_g pathSuffixes ([] @ ''/projects/'' @ p @ ''/issues/'' @ k) = []"
  proof (rule replace_g_cut)
    show "''/projects/'' @ p @ ''/issues/'' @ k \<noteq> []" by simp
    show "run pathSuffixes (''/projects/'' @ p @ ''/issues/'' @ k) \<noteq> []"
      using assms by (rule issues_matches)
    show "\<forall>t\<in>set (run pathSuffixes (''/projects/'' @ p @ ''/issues/'' @ k)). t = []"
      by (rule run_pathSuffixes_Nil)
    show "\<forall>i<length []. run pathSuffixes (drop i ([] @ ''/projects/'' @ p @ ''/issues/'' @ k)) = []"
      by simp
  qed
  then show ?thesis by (simp only: append_Nil)
qed

lemma id_from_paths:
  assumes "\<not> has (searchParams u) ''selectedIssue''"
  shows "getSelectedIssueId m u pfx =
         find_truthy [m ''/projects/:project/issues/:id'' (route_path u pfx) ''id'',
                      m ''/browse/:id'' (route_path u pfx) ''id'']"
  using assms by (simp add: getSelectedIssueId_def)

lemma id_at_browse:
  assumes "route_matcher m" and "seg K"
    and "\<not> has (searchParams u) ''selectedIssue''"
    and "route_path u pfx = ''/browse/'' @ K"
  shows "getSelectedIssueId m u pfx = Some K"
proof -
  have 1: "m ''/projects/:project/issues/:id'' (''/browse/'' @ K) ''id'' = None"
    and 2: "m ''/browse/:id'' (''/browse/'' @ K) ''id'' = Some K"
    using assms(1,2) unfolding route_matcher_def by blast+
  have "K \<noteq> []" using assms(2) by (simp add: seg_def)
  then show ?thesis
    unfolding id_from_paths[OF assms(3)] assms(4) 1 2 by simp
qed

lemma route_path_plain: "route_path u P = ''/browse/'' @ K"
  if "pathname u = P @ ''/browse/'' @ K"
proof -
  have "route_path u P = replace_start ''/jira/software'' (''/browse/'' @ K)"
    by (simp add: route_path_def that)
  also have "\<dots> = ''/browse/'' @ K" by (simp add: replace_start_def)
  finally show ?thesis .
qed

lemma route_path_product: "route_path u Q = ''/browse/'' @ K"
  if "pathname u = (Q @ ''/jira/software'') @ ''/browse/'' @ K"
proof -
  have "route_path u Q = replace_start ''/jira/software'' (''/jira/software'' @ ''/browse/'' @ K)"
    by (simp add: route_path_def that)
  also have "\<dots> = ''/browse/'' @ K" by (simp add: replace_start_def)
  finally show ?thesis .
qed

subsection \<open>Running the model\<close>

lemmas url_defs = acme_browse_def acme_empty_selected_def acme_filter_empty_selected_def
  acme_board_def acme_issue_def acme_dashboard_def acme_product_browse_def tracker_browse_def
  tracker_it_browse_def local_browse_def example_browse_def acme_boards_browse_def
  acme_product_c_browse_def doc_plain_def doc_jira_def

lemmas model_defs = getPathPrefix_def pathSuffixes_def getSelectedIssueId_def has_def get_def
  route_path_def replace_start_def micro_match_def isJiraPage_def scan_def client_get_def
  extractTicketInfo_def ascii_toLowerCase_def Let_def suffix_to_prefix offline_def acme_server_def acme_ticket_def as_text_def

subsection \<open>The query parameter and the steps of scan\<close>

lemma selected_first:
  assumes "searchParams u = before @ (''selectedIssue'', v) # rest"
    and "''selectedIssue'' \<notin> fst ` set before"
  shows "has (searchParams u) ''selectedIssue''"
    and "get (searchParams u) ''selectedIssue'' = Some v"
proof -
  show "has (searchParams u) ''selectedIssue''"
    unfolding has_def assms(1) by simp
  have "map_of before ''selectedIssue'' = None"
    using assms(2) by (simp add: map_of_eq_None_iff)
  then show "get (searchParams u) ''selectedIssue'' = Some v"
    unfolding get_def assms(1) by (simp add: map_add_def)
qed

lemma id_from_query:
  assumes "searchParams u = before @ (''selectedIssue'', v) # rest"
    and "''selectedIssue'' \<notin> fst ` set before"
  shows "getSelectedIssueId m u pfx = Some v"
  using selected_first[OF assms] by (simp add: getSelectedIssueId_def)

lemma scan_not_applicable: "\<not> isJiraPage u d \<Longrightarrow> scan m lc conv srv u d = (Inr [], [])"
  by (simp add: scan_def)

lemma scan_no_id:
  "getSelectedIssueId m u (getPathPrefix u) = None \<Longrightarrow> scan m lc conv srv u d = (Inr [], [])"
  by (simp add: scan_def)

lemma scan_empty_id:
  "getSelectedIssueId m u (getPathPrefix u) = Some [] \<Longrightarrow> scan m lc conv srv u d = (Inr [], [])"
  by (simp add: scan_def)

lemma scan_fetch:
  assumes "isJiraPage u d"
    and "getSelectedIssueId m u (getPathPrefix u) = Some i"
    and "i \<noteq> []"
  shows "scan m lc conv srv u d =
    (case srv (''https://'' @ host u @ getPathPrefix u @ ''/rest/api/3/issue/'' @ i) of
       Inl e \<Rightarrow> Inl e
     | Inr response \<Rightarrow> Inr [extractTicketInfo lc conv response (host u)],
     [''https://'' @ host u @ getPathPrefix u @ ''/rest/api/3/issue/'' @ i])"
  using assms by (simp add: scan_def client_get_def split: sum.splits)

lemma scan_tickets:
  assumes "fst (scan m lc conv srv u d) = Inr ts" and "t \<in> set ts"
  shows "\<exists>response. t = extractTicketInfo lc conv response (host u)"
  using assms
  by (auto simp: scan_def Let_def split: if_splits option.splits sum.splits)

lemma short_not_product: "length P < 14 \<Longrightarrow> \<not> ends_with_product P"
  unfolding ends_with_product_def by (auto dest!: suffix_length_le)

lemma short_no_boards: "length s < 19 \<Longrightarrow> \<not> contains_boards_route s"
  unfolding contains_boards_route_def seg_def
  by (auto simp: neq_Nil_conv)

section \<open>The claims\<close>

text \<open>
  C8. The applicability test holds exactly when the host ends with \<^verbatim>\<open>.atlassian.net\<close>
  or the id of the document's body is \<^verbatim>\<open>jira\<close>. It is a function of the URL and
  the document alone.
\<close>
theorem isJiraPage_iff:
  "isJiraPage u d \<longleftrightarrow> suffix ''.atlassian.net'' (host u) \<or> body_id d = ''jira''"
  by (simp add: isJiraPage_def)

text \<open>
  C5. When the URL carries a parameter \<^verbatim>\<open>selectedIssue\<close>, the identifier is the value
  of that parameter (of the first one with that name), as it is: for every matcher,
  every prefix and every pathname.
\<close>
theorem selectedIssue_verbatim:
  assumes "searchParams u = before @ (''selectedIssue'', v) # rest"
    and "''selectedIssue'' \<notin> fst ` set before"
  shows "getSelectedIssueId m u pfx = Some v"
  using assms by (rule id_from_query)

theorem selectedIssue_verbatim_witness:
  "searchParams acme_board = [(''rapidView'', ''1'')] @ (''selectedIssue'', ''ACME-7'') # []
   \<and> ''selectedIssue'' \<notin> fst ` set [(''rapidView'', ''1'')]
   \<and> getSelectedIssueId micro_match acme_board (getPathPrefix acme_board) = Some ''ACME-7''"
proof -
  have 1: "searchParams acme_board = [(''rapidView'', ''1'')] @ (''selectedIssue'', ''ACME-7'') # []"
    by (simp add: acme_board_def)
  have 2: "''selectedIssue'' \<notin> fst ` set [(''rapidView'', ''1'')]" by simp
  from selectedIssue_verbatim[OF 1 2] 1 2 show ?thesis by blast
qed

text \<open>
  C1, amended. When the parameter \<^verbatim>\<open>selectedIssue\<close> is present with the empty string
  as its value, \<open>getSelectedIssueId\<close> returns the empty string, whatever the path: the
  test is \<^verbatim>\<open>params.has\<close>, so the route templates are not tried.
\<close>
theorem empty_selectedIssue_short_circuits:
  assumes "searchParams u = before @ (''selectedIssue'', []) # rest"
    and "''selectedIssue'' \<notin> fst ` set before"
  shows "getSelectedIssueId m u pfx = Some []"
  using assms by (rule id_from_query)

theorem empty_selectedIssue_short_circuits_witness:
  "searchParams acme_filter_empty_selected = [(''filter'', ''1'')] @ (''selectedIssue'', []) # []
   \<and> ''selectedIssue'' \<notin> fst ` set [(''filter'', ''1'')]
   \<and> pathname acme_filter_empty_selected = ''/browse/ACME-42''
   \<and> getSelectedIssueId micro_match acme_filter_empty_selected
         (getPathPrefix acme_filter_empty_selected) = Some []"
proof -
  have 1: "searchParams acme_filter_empty_selected = [(''filter'', ''1'')] @ (''selectedIssue'', []) # []"
    by (simp add: acme_filter_empty_selected_def)
  have 2: "''selectedIssue'' \<notin> fst ` set [(''filter'', ''1'')]" by simp
  have 3: "pathname acme_filter_empty_selected = ''/browse/ACME-42''"
    by (simp add: acme_filter_empty_selected_def)
  from empty_selectedIssue_short_circuits[OF 1 2] 1 2 3 show ?thesis by blast
qed

theorem empty_selectedIssue_not_path_key:
  "has (searchParams acme_empty_selected) ''selectedIssue''
   \<and> get (searchParams acme_empty_selected) ''selectedIssue'' = Some []
   \<and> pathname acme_empty_selected = ''/browse/ACME-42''
   \<and> micro_match ''/browse/:id''
        (route_path acme_empty_selected (getPathPrefix acme_empty_selected)) ''id'' = Some ''ACME-42''
   \<and> getSelectedIssueId micro_match acme_empty_selected (getPathPrefix acme_empty_selected) = Some []
   \<and> getSelectedIssueId micro_match acme_empty_selected (getPathPrefix acme_empty_selected)
       \<noteq> Some ''ACME-42''"
  by (simp add: url_defs model_defs)

text \<open>
  C10. On an applicable page whose parameter \<^verbatim>\<open>selectedIssue\<close> is present with the
  empty string as its value, \<open>scan\<close> returns the empty list and issues no request,
  whatever the path.
\<close>
theorem empty_selectedIssue_scan_empty:
  assumes "isJiraPage u d"
    and "searchParams u = before @ (''selectedIssue'', []) # rest"
    and "''selectedIssue'' \<notin> fst ` set before"
  shows "scan m lc conv srv u d = (Inr [], [])"
  using id_from_query[OF assms(2,3)] by (rule scan_empty_id)

theorem empty_selectedIssue_scan_empty_witness:
  "isJiraPage acme_empty_selected doc_plain
   \<and> searchParams acme_empty_selected = [] @ (''selectedIssue'', []) # []
   \<and> pathname acme_empty_selected = ''/browse/ACME-42''
   \<and> scan micro_match ascii_toLowerCase as_text acme_server acme_empty_selected doc_plain = (Inr [], [])"
proof -
  have 1: "isJiraPage acme_empty_selected doc_plain"
    by (simp add: isJiraPage_def acme_empty_selected_def suffix_to_prefix)
  have 2: "searchParams acme_empty_selected = [] @ (''selectedIssue'', []) # []"
    by (simp add: acme_empty_selected_def)
  have 3: "''selectedIssue'' \<notin> fst ` set []" by simp
  have 4: "pathname acme_empty_selected = ''/browse/ACME-42''"
    by (simp add: acme_empty_selected_def)
  from empty_selectedIssue_scan_empty[OF 1 2 3] 1 2 4 show ?thesis by blast
qed

text \<open>
  C6. When the applicability test fails, or when no identifier is extracted, \<open>scan\<close>
  returns the empty list, not an error, and issues no request.
\<close>
theorem not_applicable_no_request:
  assumes "\<not> isJiraPage u d \<or> getSelectedIssueId m u (getPathPrefix u) = None"
  shows "scan m lc conv srv u d = (Inr [], [])"
  using assms scan_not_applicable scan_no_id by blast

theorem not_applicable_no_request_witness:
  "\<not> isJiraPage example_browse doc_plain
   \<and> scan micro_match ascii_toLowerCase as_text acme_server example_browse doc_plain = (Inr [], [])
   \<and> isJiraPage acme_dashboard doc_plain
   \<and> getSelectedIssueId micro_match acme_dashboard (getPathPrefix acme_dashboard) = None
   \<and> scan micro_match ascii_toLowerCase as_text acme_server acme_dashboard doc_plain = (Inr [], [])"
proof -
  have 1: "\<not> isJiraPage example_browse doc_plain"
    by (simp add: isJiraPage_def example_browse_def doc_plain_def suffix_to_prefix)
  have 2: "isJiraPage acme_dashboard doc_plain"
    by (simp add: isJiraPage_def acme_dashboard_def suffix_to_prefix)
  have 3: "getSelectedIssueId micro_match acme_dashboard (getPathPrefix acme_dashboard) = None"
    by (simp add: url_defs model_defs)
  from not_applicable_no_request[OF disjI1, OF 1] not_applicable_no_request[OF disjI2, OF 3] 1 2 3
  show ?thesis by blast
qed

text \<open>
  C2, amended. When \<open>scan\<close> reaches the fetch, it issues exactly one request, to
  \<^verbatim>\<open>https://{host}{prefix}/rest/api/3/issue/{id}\<close>: the host of the URL, the prefix
  that \<open>getPathPrefix\<close> computes, the extracted identifier, and always the scheme
  \<^verbatim>\<open>https\<close>, whatever the scheme of the URL.
\<close>
theorem request_target_https:
  assumes "isJiraPage u d"
    and "getSelectedIssueId m u (getPathPrefix u) = Some i"
    and "i \<noteq> []"
  shows "snd (scan m lc conv srv u d) =
         [''https://'' @ host u @ getPathPrefix u @ ''/rest/api/3/issue/'' @ i]"
  by (simp add: scan_fetch[OF assms])

theorem request_target_https_witness:
  "isJiraPage tracker_browse doc_jira
   \<and> getPathPrefix tracker_browse = ''/jira''
   \<and> getSelectedIssueId micro_match tracker_browse (getPathPrefix tracker_browse) = Some ''OPS-3''
   \<and> snd (scan micro_match ascii_toLowerCase as_text offline tracker_browse doc_jira) =
       [''https://tracker.internal.example/jira/rest/api/3/issue/OPS-3'']"
proof -
  have 1: "isJiraPage tracker_browse doc_jira"
    by (simp add: isJiraPage_def doc_jira_def)
  have 2: "getPathPrefix tracker_browse = ''/jira''"
    by (simp add: url_defs model_defs)
  have 3: "getSelectedIssueId micro_match tracker_browse (getPathPrefix tracker_browse) = Some ''OPS-3''"
    unfolding 2 by (simp add: url_defs model_defs)
  have 4: "''OPS-3'' \<noteq> []" by simp
  have 5: "host tracker_browse = ''tracker.internal.example''"
    by (simp add: tracker_browse_def)
  from request_target_https[OF 1 3 4, of ascii_toLowerCase as_text offline]
  have "snd (scan micro_match ascii_toLowerCase as_text offline tracker_browse doc_jira) =
       [''https://tracker.internal.example/jira/rest/api/3/issue/OPS-3'']"
    unfolding 2 5 by simp
  with 1 2 3 show ?thesis by blast
qed

theorem request_target_ignores_scheme:
  "protocol local_browse = ''http:''
   \<and> isJiraPage local_browse doc_jira
   \<and> getPathPrefix local_browse = []
   \<and> getSelectedIssueId micro_match local_browse (getPathPrefix local_browse) = Some ''OPS-3''
   \<and> snd (scan micro_match ascii_toLowerCase as_text offline local_browse doc_jira) =
       [''https://jira.local/rest/api/3/issue/OPS-3'']
   \<and> snd (scan micro_match ascii_toLowerCase as_text offline local_browse doc_jira) \<noteq>
       [''http://jira.local/rest/api/3/issue/OPS-3'']"
  by (simp add: url_defs model_defs)

text \<open>
  C3, amended. Let the pathname be \<open>P\<close> followed by \<^verbatim>\<open>/browse/\<close> and a key \<open>K\<close>, a
  non-empty segment, with no parameter \<^verbatim>\<open>selectedIssue\<close>, and let \<open>P\<close> with a slash
  hold no boards view \<^verbatim>\<open>/projects/x/boards/\<close>. If \<open>P\<close> does not end with the product
  segment, \<open>getPathPrefix\<close> returns \<open>P\<close> and the identifier is \<open>K\<close>. If \<open>P\<close> is \<open>Q\<close>
  followed by \<^verbatim>\<open>/jira/software\<close>, \<open>getPathPrefix\<close> returns \<open>Q\<close> and the identifier is
  still \<open>K\<close>. If \<open>P\<close> is \<open>Q\<close> followed by \<^verbatim>\<open>/jira/software/\<close> and one character that
  is not a slash, \<open>getPathPrefix\<close> returns \<open>Q\<close>.
\<close>
theorem browse_key_and_prefix:
  assumes "route_matcher m"
    and "seg K"
    and "pathname u = P @ ''/browse/'' @ K"
    and "\<not> has (searchParams u) ''selectedIssue''"
    and "\<not> contains_boards_route (P @ ''/'')"
  shows "(\<not> ends_with_product P \<longrightarrow>
            getPathPrefix u = P \<and> getSelectedIssueId m u (getPathPrefix u) = Some K)
       \<and> (\<forall>Q. P = Q @ ''/jira/software'' \<longrightarrow>
            getPathPrefix u = Q \<and> getSelectedIssueId m u (getPathPrefix u) = Some K)
       \<and> (\<forall>Q c. c \<noteq> CHR ''/'' \<and> P = Q @ ''/jira/software/'' @ [c] \<longrightarrow> getPathPrefix u = Q)"
proof (intro conjI allI impI)
  assume np: "\<not> ends_with_product P"
  show "getPathPrefix u = P"
    unfolding getPathPrefix_def assms(3) using assms(2) np assms(5) by (rule prefix_before_browse)
  then show "getSelectedIssueId m u (getPathPrefix u) = Some K"
    using id_at_browse[OF assms(1,2,4) route_path_plain[OF assms(3)]] by simp
next
  fix Q assume P: "P = Q @ ''/jira/software''"
  have nb: "\<not> contains_boards_route ((Q @ ''/jira/software'') @ ''/'')"
    using assms(5) unfolding P .
  have pn: "pathname u = (Q @ ''/jira/software'') @ ''/browse/'' @ K"
    using assms(3) unfolding P .
  show "getPathPrefix u = Q"
    unfolding getPathPrefix_def pn
    by (rule prefix_before_product[OF assms(2) _ nb]) (rule disjI1, rule refl)
  then show "getSelectedIssueId m u (getPathPrefix u) = Some K"
    using id_at_browse[OF assms(1,2,4) route_path_product[OF pn]] by simp
next
  fix Q c assume h: "c \<noteq> CHR ''/'' \<and> P = Q @ ''/jira/software/'' @ [c]"
  then have c: "c \<noteq> CHR ''/''" and P: "P = Q @ ''/jira/software/'' @ [c]" by blast+
  have nb: "\<not> contains_boards_route ((Q @ ''/jira/software/'' @ [c]) @ ''/'')"
    using assms(5) unfolding P .
  have pn: "pathname u = (Q @ ''/jira/software/'' @ [c]) @ ''/browse/'' @ K"
    using assms(3) unfolding P .
  have pre: "''/jira/software/'' @ [c] = ''/jira/software''
      \<or> (\<exists>c'. c' \<noteq> CHR ''/'' \<and> ''/jira/software/'' @ [c] = ''/jira/software/'' @ [c'])"
    using c by (intro disjI2 exI[of _ c] conjI refl)
  show "getPathPrefix u = Q"
    unfolding getPathPrefix_def pn
    using assms(2) pre nb by (rule prefix_before_product)
qed

theorem browse_key_and_prefix_witness:
  "seg ''OPS-3''
   \<and> pathname tracker_it_browse = ''/it'' @ ''/browse/'' @ ''OPS-3''
   \<and> \<not> has (searchParams tracker_it_browse) ''selectedIssue''
   \<and> \<not> contains_boards_route (''/it'' @ ''/'')
   \<and> \<not> ends_with_product ''/it''
   \<and> getPathPrefix tracker_it_browse = ''/it''
   \<and> getSelectedIssueId micro_match tracker_it_browse (getPathPrefix tracker_it_browse) = Some ''OPS-3''
   \<and> seg ''ACME-42''
   \<and> pathname acme_product_browse = ([] @ ''/jira/software'') @ ''/browse/'' @ ''ACME-42''
   \<and> \<not> has (searchParams acme_product_browse) ''selectedIssue''
   \<and> \<not> contains_boards_route (([] @ ''/jira/software'') @ ''/'')
   \<and> getPathPrefix acme_product_browse = []
   \<and> getSelectedIssueId micro_match acme_product_browse (getPathPrefix acme_product_browse) = Some ''ACME-42''
   \<and> pathname acme_product_c_browse = ([] @ ''/jira/software/'' @ [CHR ''c'']) @ ''/browse/'' @ ''ACME-42''
   \<and> \<not> has (searchParams acme_product_c_browse) ''selectedIssue''
   \<and> \<not> contains_boards_route (([] @ ''/jira/software/'' @ [CHR ''c'']) @ ''/'')
   \<and> getPathPrefix acme_product_c_browse = []"
proof -
  have a1: "seg ''OPS-3''" by (simp add: seg_def)
  have a2: "pathname tracker_it_browse = ''/it'' @ ''/browse/'' @ ''OPS-3''"
    by (simp add: tracker_it_browse_def)
  have a3: "\<not> has (searchParams tracker_it_browse) ''selectedIssue''"
    by (simp add: tracker_it_browse_def has_def)
  have a4: "\<not> contains_boards_route (''/it'' @ ''/'')" by (rule short_no_boards) simp
  have a5: "\<not> ends_with_product ''/it''" by (rule short_not_product) simp
  have b1: "seg ''ACME-42''" by (simp add: seg_def)
  have b2: "pathname acme_product_browse = ([] @ ''/jira/software'') @ ''/browse/'' @ ''ACME-42''"
    by (simp add: acme_product_browse_def)
  have b3: "\<not> has (searchParams acme_product_browse) ''selectedIssue''"
    by (simp add: acme_product_browse_def has_def)
  have b4: "\<not> contains_boards_route (([] @ ''/jira/software'') @ ''/'')"
    by (rule short_no_boards) simp
  have c2: "pathname acme_product_c_browse =
      ([] @ ''/jira/software/'' @ [CHR ''c'']) @ ''/browse/'' @ ''ACME-42''"
    by (simp add: acme_product_c_browse_def)
  have c3: "\<not> has (searchParams acme_product_c_browse) ''selectedIssue''"
    by (simp add: acme_product_c_browse_def has_def)
  have c4: "\<not> contains_boards_route (([] @ ''/jira/software/'' @ [CHR ''c'']) @ ''/'')"
    by (rule short_no_boards) simp
  have c5: "CHR ''c'' \<noteq> CHR ''/''" by simp
  from browse_key_and_prefix[OF micro_match_ok a1 a2 a3 a4] a5
  have A: "getPathPrefix tracker_it_browse = ''/it''"
    "getSelectedIssueId micro_match tracker_it_browse (getPathPrefix tracker_it_browse) = Some ''OPS-3''"
    by blast+
  from browse_key_and_prefix[OF micro_match_ok b1 b2 b3 b4]
  have B: "getPathPrefix acme_product_browse = []"
    "getSelectedIssueId micro_match acme_product_browse (getPathPrefix acme_product_browse) = Some ''ACME-42''"
    by blast+
  from browse_key_and_prefix[OF micro_match_ok b1 c2 c3 c4] c5
  have C: "getPathPrefix acme_product_c_browse = []"
    by blast
  from a1 a2 a3 a4 a5 A b1 b2 b3 b4 B c2 c3 c4 C show ?thesis by (intro conjI)
qed

theorem product_segment_not_in_prefix:
  "pathname acme_product_browse = ''/jira/software'' @ ''/browse/'' @ ''ACME-42''
   \<and> \<not> has (searchParams acme_product_browse) ''selectedIssue''
   \<and> getPathPrefix acme_product_browse = []
   \<and> getPathPrefix acme_product_browse \<noteq> ''/jira/software''
   \<and> pathname acme_product_c_browse = ''/jira/software/c'' @ ''/browse/'' @ ''ACME-42''
   \<and> \<not> has (searchParams acme_product_c_browse) ''selectedIssue''
   \<and> getPathPrefix acme_product_c_browse = []
   \<and> getPathPrefix acme_product_c_browse \<noteq> ''/jira/software/c''
   \<and> getSelectedIssueId micro_match acme_product_c_browse (getPathPrefix acme_product_c_browse) = None
   \<and> getSelectedIssueId micro_match acme_product_c_browse (getPathPrefix acme_product_c_browse)
        \<noteq> Some ''ACME-42''
   \<and> pathname acme_boards_browse = ''/projects/ACME/boards/7'' @ ''/browse/'' @ ''ACME-42''
   \<and> \<not> has (searchParams acme_boards_browse) ''selectedIssue''
   \<and> getPathPrefix acme_boards_browse = []
   \<and> getPathPrefix acme_boards_browse \<noteq> ''/projects/ACME/boards/7''
   \<and> getSelectedIssueId micro_match acme_boards_browse (getPathPrefix acme_boards_browse) = None
   \<and> getSelectedIssueId micro_match acme_boards_browse (getPathPrefix acme_boards_browse)
        \<noteq> Some ''ACME-42''"
  by (simp add: url_defs model_defs)

text \<open>
  C4. The \<open>url\<close> of the mapped ticket is \<^verbatim>\<open>https://\<close>, the host, \<^verbatim>\<open>/browse/\<close> and
  the key of the record, and its \<open>id\<close> is that key; so every ticket that \<open>scan\<close>
  returns has the URL made of the page's host and the ticket's id, whatever the prefix
  and the shape of the page URL.
\<close>
theorem canonical_url:
  "ticket_url (extractTicketInfo lc conv info h) = ''https://'' @ h @ ''/browse/'' @ key info
   \<and> ticket_id (extractTicketInfo lc conv info h) = key info
   \<and> (\<forall>ts. fst (scan m lc conv srv u d) = Inr ts \<longrightarrow>
        (\<forall>t\<in>set ts. ticket_url t = ''https://'' @ host u @ ''/browse/'' @ ticket_id t))"
proof (intro conjI allI impI ballI)
  show "ticket_url (extractTicketInfo lc conv info h) = ''https://'' @ h @ ''/browse/'' @ key info"
    by (simp add: extractTicketInfo_def Let_def)
  show "ticket_id (extractTicketInfo lc conv info h) = key info"
    by (simp add: extractTicketInfo_def Let_def)
  fix ts t assume "fst (scan m lc conv srv u d) = Inr ts" "t \<in> set ts"
  then obtain response where "t = extractTicketInfo lc conv response (host u)"
    using scan_tickets by blast
  then show "ticket_url t = ''https://'' @ host u @ ''/browse/'' @ ticket_id t"
    by (simp add: extractTicketInfo_def Let_def)
qed

theorem canonical_url_witness:
  "fst (scan micro_match ascii_toLowerCase as_text acme_server acme_browse doc_plain) =
     Inr [extractTicketInfo ascii_toLowerCase as_text acme_ticket ''acme.atlassian.net'']
   \<and> ticket_url (extractTicketInfo ascii_toLowerCase as_text acme_ticket ''acme.atlassian.net'') =
       ''https://acme.atlassian.net/browse/ACME-42''"
proof -
  have 1: "fst (scan micro_match ascii_toLowerCase as_text acme_server acme_browse doc_plain) =
     Inr [extractTicketInfo ascii_toLowerCase as_text acme_ticket ''acme.atlassian.net'']"
    by (simp add: url_defs model_defs)
  have 2: "host acme_browse = ''acme.atlassian.net''" by (simp add: acme_browse_def)
  have 3: "ticket_id (extractTicketInfo ascii_toLowerCase as_text acme_ticket ''acme.atlassian.net'') = ''ACME-42''"
    by (simp add: extractTicketInfo_def acme_ticket_def Let_def)
  from canonical_url[of ascii_toLowerCase as_text acme_ticket "''acme.atlassian.net''" micro_match
      acme_server acme_browse doc_plain]
  have "\<forall>t\<in>set [extractTicketInfo ascii_toLowerCase as_text acme_ticket ''acme.atlassian.net''].
          ticket_url t = ''https://'' @ host acme_browse @ ''/browse/'' @ ticket_id t"
    using 1 by blast
  then have "ticket_url (extractTicketInfo ascii_toLowerCase as_text acme_ticket ''acme.atlassian.net'') =
       ''https://acme.atlassian.net/browse/ACME-42''"
    by (simp add: 2 3)
  with 1 show ?thesis by blast
qed

text \<open>
  C7. A description that is \<^verbatim>\<open>null\<close> or \<^verbatim>\<open>undefined\<close> gives the description
  \<^verbatim>\<open>undefined\<close> in the ticket (\<open>None\<close>), which is not the empty string; a document
  gives the string of its conversion.
\<close>
theorem absent_description_undefined:
  "(description (fields' info) = Null \<or> description (fields' info) = Undefined \<longrightarrow>
      ticket_description (extractTicketInfo lc conv info h) = None)
   \<and> (\<forall>a. description (fields' info) = Doc a \<longrightarrow>
      ticket_description (extractTicketInfo lc conv info h) = Some (conv a))
   \<and> (None :: string option) \<noteq> Some []"
  by (auto simp: extractTicketInfo_def Let_def)

theorem absent_description_undefined_witness:
  "description (fields' acme_ticket) = Null
   \<and> ticket_description (extractTicketInfo ascii_toLowerCase as_text acme_ticket ''acme.atlassian.net'') = None
   \<and> description (fields' acme_ticket_described) = Doc ''Steps''
   \<and> ticket_description (extractTicketInfo ascii_toLowerCase as_text acme_ticket_described ''acme.atlassian.net'') =
       Some (as_text ''Steps'')"
proof -
  have 1: "description (fields' acme_ticket) = Null" by (simp add: acme_ticket_def)
  have 2: "description (fields' acme_ticket_described) = Doc ''Steps''"
    by (simp add: acme_ticket_described_def)
  from absent_description_undefined[of acme_ticket ascii_toLowerCase as_text "''acme.atlassian.net''"]
       absent_description_undefined[of acme_ticket_described ascii_toLowerCase as_text
         "''acme.atlassian.net''"] 1 2
  show ?thesis by blast
qed

text \<open>
  C9. Without a parameter \<^verbatim>\<open>selectedIssue\<close>, the identifier is the \<^verbatim>\<open>:id\<close> of the
  first of the templates \<^verbatim>\<open>/projects/:project/issues/:id\<close> and \<^verbatim>\<open>/browse/:id\<close>, in
  this order, that yields one, and none when neither does. On a pathname
  \<^verbatim>\<open>/projects/p/issues/k\<close> the identifier is \<open>k\<close>.
\<close>
theorem templates_in_order:
  assumes "\<not> has (searchParams u) ''selectedIssue''"
  shows "(truthy (m ''/projects/:project/issues/:id'' (route_path u pfx) ''id'') \<longrightarrow>
            getSelectedIssueId m u pfx = m ''/projects/:project/issues/:id'' (route_path u pfx) ''id'')
   \<and> (\<not> truthy (m ''/projects/:project/issues/:id'' (route_path u pfx) ''id'')
        \<and> truthy (m ''/browse/:id'' (route_path u pfx) ''id'') \<longrightarrow>
            getSelectedIssueId m u pfx = m ''/browse/:id'' (route_path u pfx) ''id'')
   \<and> (\<not> truthy (m ''/projects/:project/issues/:id'' (route_path u pfx) ''id'')
        \<and> \<not> truthy (m ''/browse/:id'' (route_path u pfx) ''id'') \<longrightarrow>
            getSelectedIssueId m u pfx = None)
   \<and> (route_matcher m \<and> seg p \<and> seg k \<and> pathname u = ''/projects/'' @ p @ ''/issues/'' @ k \<longrightarrow>
            getSelectedIssueId m u (getPathPrefix u) = Some k)"
proof (intro conjI impI)
  show "getSelectedIssueId m u pfx = m ''/projects/:project/issues/:id'' (route_path u pfx) ''id''"
    if "truthy (m ''/projects/:project/issues/:id'' (route_path u pfx) ''id'')"
    using that by (simp add: id_from_paths[OF assms])
  show "getSelectedIssueId m u pfx = m ''/browse/:id'' (route_path u pfx) ''id''"
    if "\<not> truthy (m ''/projects/:project/issues/:id'' (route_path u pfx) ''id'')
        \<and> truthy (m ''/browse/:id'' (route_path u pfx) ''id'')"
    using that by (simp add: id_from_paths[OF assms])
  show "getSelectedIssueId m u pfx = None"
    if "\<not> truthy (m ''/projects/:project/issues/:id'' (route_path u pfx) ''id'')
        \<and> \<not> truthy (m ''/browse/:id'' (route_path u pfx) ''id'')"
    using that by (simp add: id_from_paths[OF assms])
  show "getSelectedIssueId m u (getPathPrefix u) = Some k"
    if h: "route_matcher m \<and> seg p \<and> seg k \<and> pathname u = ''/projects/'' @ p @ ''/issues/'' @ k"
  proof -
    from h have rm: "route_matcher m" and p: "seg p" and k: "seg k"
      and pn: "pathname u = ''/projects/'' @ p @ ''/issues/'' @ k" by blast+
    have pfx0: "getPathPrefix u = []"
      unfolding getPathPrefix_def pn using p k by (rule prefix_at_issues)
    have "route_path u [] = replace_start ''/jira/software'' (''/projects/'' @ p @ ''/issues/'' @ k)"
      by (simp add: route_path_def pn)
    also have "\<dots> = ''/projects/'' @ p @ ''/issues/'' @ k"
      by (simp add: replace_start_def)
    finally have rp: "route_path u [] = ''/projects/'' @ p @ ''/issues/'' @ k" .
    have 1: "m ''/projects/:project/issues/:id'' (''/projects/'' @ p @ ''/issues/'' @ k) ''id'' = Some k"
      using rm p k unfolding route_matcher_def by blast
    have "k \<noteq> []" using k by (simp add: seg_def)
    then show ?thesis
      unfolding pfx0 id_from_paths[OF assms] rp 1 by simp
  qed
qed

theorem templates_in_order_witness:
  "\<not> has (searchParams acme_issue) ''selectedIssue''
   \<and> seg ''ACME'' \<and> seg ''ACME-42''
   \<and> pathname acme_issue = ''/projects/'' @ ''ACME'' @ ''/issues/'' @ ''ACME-42''
   \<and> getSelectedIssueId micro_match acme_issue (getPathPrefix acme_issue) = Some ''ACME-42''"
proof -
  have 1: "\<not> has (searchParams acme_issue) ''selectedIssue''"
    by (simp add: acme_issue_def has_def)
  have 2: "seg ''ACME''" "seg ''ACME-42''" by (simp_all add: seg_def)
  have 3: "pathname acme_issue = ''/projects/'' @ ''ACME'' @ ''/issues/'' @ ''ACME-42''"
    by (simp add: acme_issue_def)
  from templates_in_order[OF 1, of micro_match "[]" "''ACME''" "''ACME-42''"] micro_match_ok 1 2 3
  show ?thesis by blast
qed

end
